theory Spec2Isabelle
  imports Main "HOL-Library.Multiset"
begin

section \<open>Batch-dimension bookkeeping of \<open>aten/src/ATen/native/Batching.cpp\<close>\<close>

text \<open>
  The file under verification defines \<open>_add_batch_dim\<close>, \<open>has_level\<close>,
  \<open>remove_existing_batch_dim\<close>, \<open>movedim\<close> and \<open>_remove_batch_dim\<close>. They are
  embedded below as HOL functions. \<open>int64_t\<close> values are modelled as \<open>int\<close>. The
  arithmetic of the file is the increment of a loop counter bounded by a rank, and, on
  lines 55-56, the difference of a physical dimension and a count of tag entries. Under
  the data-model invariants (every physical dimension lies within the payload's rank)
  both stay inside the \<open>int64_t\<close> range, and every theorem about the returned index
  assumes these invariants. Outside them (a tag entry at a dimension next to the least
  \<open>int64_t\<close>) the subtraction of lines 55-56 would overflow, which the model does not
  follow.
\<close>

subsection \<open>Outcomes\<close>

text \<open>
  \<open>InternalAssert\<close> is a failed \<open>TORCH_INTERNAL_ASSERT\<close>; \<open>OutOfRange\<close> is the range error
  of dimension normalisation; \<open>ShapeMismatch\<close> and \<open>InvalidPermutation\<close> are the input
  checks of the runtime's broadcast and permute primitives. \<open>UndefinedBehavior\<close> is not an
  exception: it marks an execution on which the C++ has no defined result (a read of a
  variable that was never assigned, an iterator outside its vector).
\<close>

datatype error = InternalAssert | OutOfRange | ShapeMismatch | InvalidPermutation
  | UndefinedBehavior

subsection \<open>Data model\<close>

text \<open>\<open>BatchDim\<close>: one (level, physical dimension) pair, read by \<open>level()\<close> and \<open>dim()\<close>.\<close>

record BatchDim =
  level :: int
  dim :: int

text \<open>
  Modelled from the spec: the array runtime's plain array is not under src/. Sections 4.4
  and 5 describe it as a strided view (stride-0 broadcast, views aliasing storage), so it
  is a shape, one stride per dimension, an offset and the storage it looks into.
\<close>

record 'a TensorImpl =
  sizes :: "int list"
  strides :: "int list"
  storage_offset :: int
  storage :: "'a list"

text \<open>
  A \<open>Tensor\<close> is either a plain array or a tagged one: \<open>Batched v bdims\<close> wraps the plain
  payload \<open>v\<close> (what \<open>batched->value()\<close> returns) with the tag entries \<open>bdims\<close> (what
  \<open>batched->bdims()\<close> returns).
\<close>

datatype 'a Tensor = Plain "'a TensorImpl" | Batched "'a TensorImpl" "BatchDim list"

text \<open>\<open>maybeGetBatched\<close> returns a null pointer for a plain array.\<close>

fun maybeGetBatched :: "'a Tensor \<Rightarrow> ('a TensorImpl \<times> BatchDim list) option" where
  "maybeGetBatched (Plain v) = None"
| "maybeGetBatched (Batched v bdims) = Some (v, bdims)"

text \<open>
  Modelled from the spec: \<open>makeBatched\<close> is not under src/. Section 4.3: "Rewrap the
  original payload with the reduced tag set (no data movement)".
\<close>

definition makeBatched :: "'a TensorImpl \<Rightarrow> BatchDim list \<Rightarrow> 'a Tensor" where
  "makeBatched v bdims = Batched v bdims"

text \<open>
  Modelled from the spec: \<open>addBatchDim\<close> is not under src/. Section 4.5: it "returns a
  Tagged Array wrapping array's payload with the new (level, physicalDim) entry appended to
  any existing tag set (or creating a fresh one-entry set if array was untagged)", with no
  validation.
\<close>

fun addBatchDim :: "'a Tensor \<Rightarrow> int \<Rightarrow> int \<Rightarrow> 'a Tensor" where
  "addBatchDim (Plain v) lvl d = Batched v [\<lparr>level = lvl, dim = d\<rparr>]"
| "addBatchDim (Batched v bdims) lvl d = Batched v (bdims @ [\<lparr>level = lvl, dim = d\<rparr>])"

subsection \<open>The runtime's shape queries and dimension normalisation\<close>

text \<open>\<open>is_bdim bdims d\<close>: physical dimension \<open>d\<close> is hidden by some tag entry.\<close>

definition is_bdim :: "BatchDim list \<Rightarrow> int \<Rightarrow> bool" where
  "is_bdim bdims d = list_ex (\<lambda>b. dim b = d) bdims"

text \<open>The physical positions of a rank-\<open>n\<close> payload that no tag entry hides, ascending.\<close>

definition logical_positions :: "nat \<Rightarrow> BatchDim list \<Rightarrow> int list" where
  "logical_positions n bdims = filter (\<lambda>d. \<not> is_bdim bdims d) (map int [0..<n])"

text \<open>
  Modelled from the spec: \<open>Tensor::sizes()\<close> and \<open>Tensor::dim()\<close> are not under src/. The
  glossary: a logical dimension is "an axis position as seen by code unaware of batching --
  excludes all currently-tagged batch axes". So the logical shape of a tagged array is the
  payload's shape at the untagged positions, and the rank is the length of the shape.
\<close>

fun tensor_sizes :: "'a Tensor \<Rightarrow> int list" where
  "tensor_sizes (Plain v) = sizes v"
| "tensor_sizes (Batched v bdims) =
     map (\<lambda>d. sizes v ! nat d) (logical_positions (length (sizes v)) bdims)"

definition tensor_dim :: "'a Tensor \<Rightarrow> int" where
  "tensor_dim self = int (length (tensor_sizes self))"

text \<open>
  Modelled from the spec: \<open>maybe_wrap_dim\<close> is not under src/. Sections 4.2 and 6: it
  "maps possibly-negative indices into [0, rank) and fails with a range error otherwise";
  "negative indices count from the end".
\<close>

definition maybe_wrap_dim :: "int \<Rightarrow> int \<Rightarrow> error + int" where
  "maybe_wrap_dim d dim_post_expr =
     (if - dim_post_expr \<le> d \<and> d < dim_post_expr
      then Inr (if d < 0 then d + dim_post_expr else d)
      else Inl OutOfRange)"

text \<open>
  \<open>vec.insert(vec.begin() + pos, x)\<close> of the standard vector interface: defined for
  \<open>0 \<le> pos \<le> size\<close>, undefined behaviour otherwise.
\<close>

definition vec_insert :: "'b list \<Rightarrow> int \<Rightarrow> 'b \<Rightarrow> error + 'b list" where
  "vec_insert xs pos x =
     (if 0 \<le> pos \<and> pos \<le> int (length xs)
      then Inr (take (nat pos) xs @ x # drop (nat pos) xs)
      else Inl UndefinedBehavior)"

subsection \<open>The runtime's permute and broadcast primitives\<close>

text \<open>
  Modelled from the spec: \<open>Tensor::permute\<close> is not under src/. Section 4.2 calls it "the
  collaborator's generic permute/transpose primitive" applying "a permutation of
  {0, ..., rank-1}": dimension \<open>i\<close> of the result is dimension \<open>dims ! i\<close> of the input, no
  element moves. Anything that is not such a permutation is refused.
\<close>

definition permute_impl :: "'a TensorImpl \<Rightarrow> int list \<Rightarrow> error + 'a TensorImpl" where
  "permute_impl v dims =
     (if length dims = length (sizes v)
         \<and> list_all (\<lambda>d. 0 \<le> d \<and> d < int (length (sizes v))) dims
         \<and> distinct dims
      then Inr (v\<lparr>sizes := map (\<lambda>d. sizes v ! nat d) dims,
                  strides := map (\<lambda>d. strides v ! nat d) dims\<rparr>)
      else Inl InvalidPermutation)"

text \<open>
  Modelled from the spec: \<open>Tensor::expand\<close> is not under src/. Sections 4.4 and 6 call it
  the runtime's "broadcast-to-shape" primitive with "stride-0 broadcast semantics -- no
  element duplication in storage". The primitive receives the array and the target shape
  only. Broadcasting aligns the two shapes at their last dimension: a target dimension
  beyond the array's rank is new and gets stride 0; an existing dimension keeps its stride
  when the sizes agree, is stretched with stride 0 when its size is 1, and is a shape
  mismatch otherwise.
\<close>

definition expand_impl :: "'a TensorImpl \<Rightarrow> int list \<Rightarrow> error + 'a TensorImpl" where
  "expand_impl v target =
     (if length target < length (sizes v) then Inl ShapeMismatch
      else
        let k = length target - length (sizes v);
            aligned = zip (sizes v) (drop k target)
        in if list_all (\<lambda>(s, g). g = s \<or> s = 1) aligned
           then Inr (v\<lparr>sizes := target,
                       strides := replicate k 0 @
                         map (\<lambda>((s, g), st). if g = s then st else 0)
                           (zip aligned (strides v))\<rparr>)
           else Inl ShapeMismatch)"

text \<open>
  Modelled from the spec: how the runtime applies a primitive to a tagged array is not under
  src/. The primitive sees the logical dimensions only (glossary). The model brings the
  tagged dimensions to the front in tag order, applies the primitive to the dimensions
  behind them, and tags the leading dimensions with the same levels.
\<close>

definition permuteBatchDimsToFront ::
    "'a TensorImpl \<Rightarrow> BatchDim list \<Rightarrow> error + 'a TensorImpl" where
  "permuteBatchDimsToFront v bdims =
     permute_impl v (map dim bdims @ logical_positions (length (sizes v)) bdims)"

definition front_bdims :: "BatchDim list \<Rightarrow> BatchDim list" where
  "front_bdims bdims =
     map (\<lambda>(i, b). \<lparr>level = level b, dim = int i\<rparr>) (zip [0..<length bdims] bdims)"

fun permute :: "'a Tensor \<Rightarrow> int list \<Rightarrow> error + 'a Tensor" where
  "permute (Plain v) dims =
     (case permute_impl v dims of Inl e \<Rightarrow> Inl e | Inr r \<Rightarrow> Inr (Plain r))"
| "permute (Batched v bdims) dims =
     (case permuteBatchDimsToFront v bdims of
        Inl e \<Rightarrow> Inl e
      | Inr p \<Rightarrow>
          (case permute_impl p (map int [0..<length bdims] @
                                map (\<lambda>d. d + int (length bdims)) dims) of
             Inl e \<Rightarrow> Inl e
           | Inr r \<Rightarrow> Inr (Batched r (front_bdims bdims))))"

fun expand :: "'a Tensor \<Rightarrow> int list \<Rightarrow> error + 'a Tensor" where
  "expand (Plain v) target =
     (case expand_impl v target of Inl e \<Rightarrow> Inl e | Inr r \<Rightarrow> Inr (Plain r))"
| "expand (Batched v bdims) target =
     (case permuteBatchDimsToFront v bdims of
        Inl e \<Rightarrow> Inl e
      | Inr p \<Rightarrow>
          (let k = length bdims; r = length (sizes p) - k in
           if length target < r then Inl ShapeMismatch
           else
             (case expand_impl
                     (p\<lparr>sizes := take k (sizes p) @ replicate (length target - r) 1
                                   @ drop k (sizes p),
                        strides := take k (strides p) @ replicate (length target - r) 0
                                   @ drop k (strides p)\<rparr>)
                     (take k (sizes p) @ target) of
                Inl e \<Rightarrow> Inl e
              | Inr r \<Rightarrow> Inr (Batched r (front_bdims bdims)))))"

text \<open>
  Modelled from the spec: the slice of a plain array along dimension \<open>d\<close> at index \<open>i\<close>
  (section 8, "every slice along the new dimension"): the dimension is dropped and the
  view starts \<open>i\<close> strides further into the same storage.
\<close>

definition select_impl :: "'a TensorImpl \<Rightarrow> nat \<Rightarrow> int \<Rightarrow> 'a TensorImpl" where
  "select_impl v d i =
     v\<lparr>sizes := take d (sizes v) @ drop (Suc d) (sizes v),
       strides := take d (strides v) @ drop (Suc d) (strides v),
       storage_offset := storage_offset v + i * (strides v ! d)\<rparr>"

subsection \<open>The functions of Batching.cpp\<close>

text \<open>\<open>_add_batch_dim\<close> (lines 8-10) passes its arguments on, level and dimension swapped.\<close>

definition add_batch_dim :: "'a Tensor \<Rightarrow> int \<Rightarrow> int \<Rightarrow> 'a Tensor" where
  "add_batch_dim self batch_dim lvl = addBatchDim self lvl batch_dim"

text \<open>\<open>has_level\<close> (lines 12-22): \<open>std::find_if\<close> over the tag entries of a tagged array.\<close>

definition has_level :: "'a Tensor \<Rightarrow> int \<Rightarrow> bool" where
  "has_level self lvl =
     (case maybeGetBatched self of
        None \<Rightarrow> False
      | Some (v, bdims) \<Rightarrow>
          (case find (\<lambda>bdim. level bdim = lvl) bdims of None \<Rightarrow> False | Some b \<Rightarrow> True))"

text \<open>
  The loop of lines 43-49 over \<open>bdims\<close>. Its state is \<open>new_bdims\<close> and
  \<open>newly_exposed_physical_dim\<close>; the latter is declared without a value (line 41), which is
  \<open>None\<close> here.
\<close>

fun remove_loop ::
    "int \<Rightarrow> BatchDim list \<Rightarrow> BatchDim list \<times> int option \<Rightarrow> BatchDim list \<times> int option" where
  "remove_loop lvl [] st = st"
| "remove_loop lvl (bdim # rest) (new_bdims, exposed) =
     (if level bdim = lvl
      then remove_loop lvl rest (new_bdims, Some (dim bdim))
      else remove_loop lvl rest (new_bdims @ [bdim], exposed))"

text \<open>
  \<open>remove_existing_batch_dim\<close> (lines 32-59). Line 34 asserts that the array is tagged;
  lines 36-39 treat a one-entry tag set, asserting its level; lines 40-58 run the loop,
  count the surviving entries before the exposed dimension and rewrap. When the loop never
  assigned \<open>newly_exposed_physical_dim\<close>, lines 50-56 read it uninitialised. Line 42 only
  reserves capacity. An empty tag set, which the data model excludes ("there is no
  zero-length tag set wrapper"), is not followed apart: it has the outcome of the
  uninitialised read.
\<close>

definition remove_existing_batch_dim :: "'a Tensor \<Rightarrow> int \<Rightarrow> error + ('a Tensor \<times> int)" where
  "remove_existing_batch_dim self lvl =
     (case maybeGetBatched self of
        None \<Rightarrow> Inl InternalAssert
      | Some (v, bdims) \<Rightarrow>
          if length bdims = 1 then
            (if level (bdims ! 0) = lvl
             then Inr (Plain v, dim (bdims ! 0))
             else Inl InternalAssert)
          else
            (case remove_loop lvl bdims ([], None) of
               (new_bdims, None) \<Rightarrow> Inl UndefinedBehavior
             | (new_bdims, Some newly_exposed_physical_dim) \<Rightarrow>
                 let num_batch_dims_before_newly_exposed_physical_dim =
                       int (length (filter (\<lambda>bdim. dim bdim < newly_exposed_physical_dim)
                                      new_bdims));
                     newly_exposed_logical_dim =
                       newly_exposed_physical_dim
                         - num_batch_dims_before_newly_exposed_physical_dim
                 in Inr (makeBatched v new_bdims, newly_exposed_logical_dim)))"

text \<open>The loop of lines 74-79: \<open>for (dim = 0; dim < logical_dim; dim++)\<close>, skipping \<open>src\<close>.\<close>

function movedim_loop :: "int \<Rightarrow> int \<Rightarrow> int \<Rightarrow> int list \<Rightarrow> int list" where
  "movedim_loop d logical_dim src permutation =
     (if d < logical_dim
      then (if d = src
            then movedim_loop (d + 1) logical_dim src permutation
            else movedim_loop (d + 1) logical_dim src (permutation @ [d]))
      else permutation)"
  by pat_completeness auto
termination
  by (relation "measure (\<lambda>(d, logical_dim, src, permutation). nat (logical_dim - d))") auto

declare movedim_loop.simps [simp del]

text \<open>\<open>movedim\<close> (lines 65-82).\<close>

definition movedim :: "'a Tensor \<Rightarrow> int \<Rightarrow> int \<Rightarrow> error + 'a Tensor" where
  "movedim self src dst =
     (let logical_dim = tensor_dim self in
      case maybe_wrap_dim src logical_dim of
        Inl e \<Rightarrow> Inl e
      | Inr src' \<Rightarrow>
          (case maybe_wrap_dim dst logical_dim of
             Inl e \<Rightarrow> Inl e
           | Inr dst' \<Rightarrow>
               if src' = dst' then Inr self
               else
                 (case vec_insert (movedim_loop 0 logical_dim src' []) dst' src' of
                    Inl e \<Rightarrow> Inl e
                  | Inr permutation \<Rightarrow> permute self permutation)))"

text \<open>\<open>_remove_batch_dim\<close> (lines 100-112).\<close>

definition remove_batch_dim :: "'a Tensor \<Rightarrow> int \<Rightarrow> int \<Rightarrow> int \<Rightarrow> error + 'a Tensor" where
  "remove_batch_dim self lvl batch_size out_dim =
     (if \<not> has_level self lvl then
        (case vec_insert (tensor_sizes self) out_dim batch_size of
           Inl e \<Rightarrow> Inl e
         | Inr expanded_sizes \<Rightarrow> expand self expanded_sizes)
      else
        (case remove_existing_batch_dim self lvl of
           Inl e \<Rightarrow> Inl e
         | Inr (self_without_bdim, newly_exposed_logical_dim) \<Rightarrow>
             movedim self_without_bdim newly_exposed_logical_dim out_dim))"

subsection \<open>Notions of the specification\<close>

text \<open>
  The data-model invariants of section 3 for a tag set over a payload of physical rank \<open>n\<close>:
  entries are unique by level and unique by physical dimension, and every physical
  dimension is one of \<open>0, ..., n - 1\<close>.
\<close>

definition wf_bdims :: "nat \<Rightarrow> BatchDim list \<Rightarrow> bool" where
  "wf_bdims n bdims =
     (distinct (map level bdims) \<and> distinct (map dim bdims)
      \<and> list_all (\<lambda>b. 0 \<le> dim b \<and> dim b < int n) bdims)"

fun tensor_invariant :: "'a Tensor \<Rightarrow> bool" where
  "tensor_invariant (Plain v) = True"
| "tensor_invariant (Batched v bdims) = wf_bdims (length (sizes v)) bdims"

text \<open>
  Section 4.2 in its own words: "taking all dimensions except src in their original
  relative order" (the reduced sequence), "then inserting src at position dst of that
  reduced sequence". This is the specification's permutation, to be compared with the one
  the loop and the vector insertion of \<open>movedim\<close> build.
\<close>

definition reduced_dims :: "int \<Rightarrow> int \<Rightarrow> int list" where
  "reduced_dims r src = filter (\<lambda>x. x \<noteq> src) [0..r - 1]"

definition spec_movedim_permutation :: "int \<Rightarrow> int \<Rightarrow> int \<Rightarrow> int list" where
  "spec_movedim_permutation r src dst =
     take (nat dst) (reduced_dims r src) @ src # drop (nat dst) (reduced_dims r src)"

section \<open>Properties\<close>

subsection \<open>The tag-set loop of the Remover\<close>

lemma remove_loop_fst:
  "fst (remove_loop lvl bdims (acc, e)) = acc @ filter (\<lambda>b. level b \<noteq> lvl) bdims"
  by (induction bdims arbitrary: acc e) auto

lemma remove_loop_snd_absent:
  "\<not> list_ex (\<lambda>b. level b = lvl) bdims \<Longrightarrow> snd (remove_loop lvl bdims (acc, e)) = e"
  by (induction bdims arbitrary: acc e) auto

lemma remove_loop_snd_present:
  "list_ex (\<lambda>b. level b = lvl) bdims \<Longrightarrow>
   \<exists>b. b \<in> set bdims \<and> level b = lvl \<and> snd (remove_loop lvl bdims (acc, e)) = Some (dim b)"
proof (induction bdims arbitrary: acc e)
  case Nil
  then show ?case by simp
next
  case (Cons a bdims)
  show ?case
  proof (cases "list_ex (\<lambda>b. level b = lvl) bdims")
    case True
    from Cons.IH[OF True] show ?thesis by (cases "level a = lvl") auto
  next
    case False
    with Cons.prems have a: "level a = lvl" by simp
    from False have "snd (remove_loop lvl bdims (acc, Some (dim a))) = Some (dim a)"
      by (rule remove_loop_snd_absent)
    with a show ?thesis by auto
  qed
qed

lemma remove_loop_present:
  assumes "list_ex (\<lambda>b. level b = lvl) bdims"
  shows "\<exists>b. b \<in> set bdims \<and> level b = lvl \<and>
     remove_loop lvl bdims ([], None) = (filter (\<lambda>b. level b \<noteq> lvl) bdims, Some (dim b))"
proof -
  from remove_loop_snd_present[OF assms, of "[]" None]
  obtain b where b: "b \<in> set bdims" "level b = lvl"
      "snd (remove_loop lvl bdims ([], None)) = Some (dim b)" by blast
  have "fst (remove_loop lvl bdims ([], None)) = filter (\<lambda>b. level b \<noteq> lvl) bdims"
    using remove_loop_fst[of lvl bdims "[]" None] by simp
  with b(3) have "remove_loop lvl bdims ([], None) =
      (filter (\<lambda>b. level b \<noteq> lvl) bdims, Some (dim b))"
    by (metis prod.collapse)
  with b(1,2) show ?thesis by blast
qed

lemma remove_loop_unique:
  assumes "distinct (map level bdims)" "\<lparr>level = lvl, dim = p\<rparr> \<in> set bdims"
  shows "remove_loop lvl bdims ([], None) = (filter (\<lambda>b. level b \<noteq> lvl) bdims, Some p)"
proof -
  have ex: "list_ex (\<lambda>b. level b = lvl) bdims"
    using assms(2) by (auto simp: list_ex_iff intro!: bexI[of _ "\<lparr>level = lvl, dim = p\<rparr>"])
  from remove_loop_present[OF ex]
  obtain b where b: "b \<in> set bdims" "level b = lvl"
      "remove_loop lvl bdims ([], None) = (filter (\<lambda>b. level b \<noteq> lvl) bdims, Some (dim b))"
    by blast
  have "b = \<lparr>level = lvl, dim = p\<rparr>"
    using assms b(1,2) by (auto simp: distinct_map inj_on_def)
  with b(3) show ?thesis by simp
qed

lemma has_level_Batched:
  "has_level (Batched v bdims) lvl = list_ex (\<lambda>b. level b = lvl) bdims"
  by (induction bdims) (auto simp: has_level_def)

lemma has_level_Plain: "has_level (Plain v) lvl = False"
  by (simp add: has_level_def)

subsection \<open>Index remapping\<close>

text \<open>
  Claim C1. For a tagged array satisfying the data-model invariants whose tag set has two
  or more entries and contains the entry for level \<open>lvl\<close> with physical dimension \<open>p\<close>,
  \<open>remove_existing_batch_dim\<close> returns the logical dimension \<open>p - c\<close>, where \<open>c\<close> counts the
  surviving entries (those of another level) whose physical dimension is strictly less
  than \<open>p\<close>. The instance below: entries at physical dimensions 1 and 3 for levels 0 and 1,
  removing level 1, gives logical dimension 2.
\<close>

theorem remove_existing_batch_dim_logical_dim:
  assumes "2 \<le> length bdims"
    and "wf_bdims (length (sizes v)) bdims"
    and "\<lparr>level = lvl, dim = p\<rparr> \<in> set bdims"
  shows "\<exists>t. remove_existing_batch_dim (Batched v bdims) lvl =
      Inr (t, p - int (length (filter (\<lambda>b. dim b < p)
                                 (filter (\<lambda>b. level b \<noteq> lvl) bdims))))"
proof -
  from assms(2) have "distinct (map level bdims)" by (simp add: wf_bdims_def)
  from remove_loop_unique[OF this assms(3)] assms(1) show ?thesis
    by (simp add: remove_existing_batch_dim_def)
qed

theorem remove_existing_batch_dim_logical_dim_witness:
  "\<exists>t. remove_existing_batch_dim
     (Batched \<lparr>sizes = [2, 3, 5, 7], strides = [105, 35, 7, 1], storage_offset = 0,
               storage = [0::nat]\<rparr>
        [\<lparr>level = 0, dim = 1\<rparr>, \<lparr>level = 1, dim = 3\<rparr>]) 1 = Inr (t, 2)"
  using remove_existing_batch_dim_logical_dim
    [of "[\<lparr>level = 0, dim = 1\<rparr>, \<lparr>level = 1, dim = 3\<rparr>]"
        "\<lparr>sizes = [2, 3, 5, 7], strides = [105, 35, 7, 1], storage_offset = 0,
          storage = [0::nat]\<rparr>" 1 3]
  by (simp add: wf_bdims_def)

subsection \<open>Round trip\<close>

text \<open>
  Claim C3. For every plain array \<open>a\<close>, level \<open>lvl\<close> and position \<open>p\<close> (in particular every
  \<open>p\<close> between 0 and the rank of \<open>a\<close>), removing level \<open>lvl\<close> from \<open>addBatchDim a lvl p\<close>
  returns the pair of \<open>a\<close> itself and \<open>p\<close>; the same through the entry point
  \<open>_add_batch_dim\<close>, which takes the dimension before the level.
\<close>

theorem add_then_remove_existing_batch_dim:
  "remove_existing_batch_dim (addBatchDim (Plain a) lvl p) lvl = Inr (Plain a, p)
   \<and> remove_existing_batch_dim (add_batch_dim (Plain a) p lvl) lvl = Inr (Plain a, p)"
  by (simp add: remove_existing_batch_dim_def add_batch_dim_def)

subsection \<open>Frame of the Remover\<close>

text \<open>
  Claim C8. For a tagged array with two or more tag entries, one of them for level \<open>lvl\<close>,
  the array returned by \<open>remove_existing_batch_dim\<close> wraps the same payload \<open>v\<close>, and its
  tag set is the original one without the entries of level \<open>lvl\<close>: every other entry is
  kept as it was, level and physical dimension unchanged, in the original order.
\<close>

theorem remove_existing_batch_dim_frame:
  assumes "2 \<le> length bdims"
    and "has_level (Batched v bdims) lvl"
  shows "\<exists>d. remove_existing_batch_dim (Batched v bdims) lvl =
      Inr (Batched v (filter (\<lambda>b. level b \<noteq> lvl) bdims), d)"
proof -
  from assms(2) have "list_ex (\<lambda>b. level b = lvl) bdims"
    by (simp add: has_level_Batched)
  from remove_loop_present[OF this]
  obtain b :: BatchDim where "remove_loop lvl bdims ([], None) =
      (filter (\<lambda>b. level b \<noteq> lvl) bdims, Some (dim b))"
    by blast
  with assms(1) show ?thesis
    by (simp add: remove_existing_batch_dim_def makeBatched_def)
qed

theorem remove_existing_batch_dim_frame_witness:
  "2 \<le> length [\<lparr>level = 0, dim = 1\<rparr>, \<lparr>level = 1, dim = 2\<rparr>]
   \<and> has_level (Batched \<lparr>sizes = [2, 3, 5], strides = [15, 5, 1], storage_offset = 0,
                          storage = [0::nat]\<rparr>
                 [\<lparr>level = 0, dim = 1\<rparr>, \<lparr>level = 1, dim = 2\<rparr>]) 1
   \<and> (\<exists>d. remove_existing_batch_dim
        (Batched \<lparr>sizes = [2, 3, 5], strides = [15, 5, 1], storage_offset = 0,
                  storage = [0::nat]\<rparr>
           [\<lparr>level = 0, dim = 1\<rparr>, \<lparr>level = 1, dim = 2\<rparr>]) 1 =
      Inr (Batched \<lparr>sizes = [2, 3, 5], strides = [15, 5, 1], storage_offset = 0,
                    storage = [0::nat]\<rparr>
             [\<lparr>level = 0, dim = 1\<rparr>], d))"
  using remove_existing_batch_dim_frame
    [of "[\<lparr>level = 0, dim = 1\<rparr>, \<lparr>level = 1, dim = 2\<rparr>]"
        "\<lparr>sizes = [2, 3, 5], strides = [15, 5, 1], storage_offset = 0, storage = [0::nat]\<rparr>" 1]
  by (simp add: has_level_Batched)

subsection \<open>The permutation built by movedim\<close>

lemma movedim_loop_eq:
  "movedim_loop d n src acc = acc @ filter (\<lambda>x. x \<noteq> src) [d..n - 1]"
proof (induction d n src acc rule: movedim_loop.induct)
  case (1 d n src acc)
  show ?case
  proof (cases "d < n")
    case True
    then have u: "[d..n - 1] = d # [d + 1..n - 1]" by (simp add: upto_rec1)
    show ?thesis
      using True "1.IH" u by (subst movedim_loop.simps) auto
  next
    case False
    then show ?thesis by (subst movedim_loop.simps) simp
  qed
qed

lemma filter_neq_upto:
  assumes "0 \<le> s" "s < r"
  shows "filter (\<lambda>x. x \<noteq> s) [0..r - 1] = [0..s - 1] @ [s + 1..r - 1]"
proof -
  have "[0..r - 1] = [0..s - 1] @ s # [s + 1..r - 1]"
    using assms upto_split3[of 0 s "r - 1"] by simp
  moreover have "filter (\<lambda>x. x \<noteq> s) [0..s - 1] = [0..s - 1]" by (auto intro: filter_True)
  moreover have "filter (\<lambda>x. x \<noteq> s) [s + 1..r - 1] = [s + 1..r - 1]" by (auto intro: filter_True)
  ultimately show ?thesis by simp
qed

lemma reduced_props:
  assumes "0 \<le> s" "s < r"
  shows "length (reduced_dims r s) = nat r - 1" "distinct (reduced_dims r s)"
    "set (reduced_dims r s) = {0..r - 1} - {s}"
  using assms by (auto simp: reduced_dims_def filter_neq_upto)

lemma vec_insert_perm:
  assumes "0 \<le> s" "s < r" "0 \<le> d" "d < r"
  shows "vec_insert (movedim_loop 0 r s []) d s =
     Inr (take (nat d) (reduced_dims r s) @ s # drop (nat d) (reduced_dims r s))"
  using assms reduced_props(1)[of s r] by (auto simp: vec_insert_def movedim_loop_eq reduced_dims_def)

lemma inserted_props:
  assumes "0 \<le> s" "s < r" 
  shows "length (take k (reduced_dims r s) @ s # drop k (reduced_dims r s)) = nat r"
    "distinct (take k (reduced_dims r s) @ s # drop k (reduced_dims r s))"
    "set (take k (reduced_dims r s) @ s # drop k (reduced_dims r s)) = {0..r - 1}"
proof -
  let ?xs = "reduced_dims r s"
  show "length (take k ?xs @ s # drop k ?xs) = nat r"
    using reduced_props(1)[OF assms] assms by simp
  have "distinct (take k ?xs @ drop k ?xs)"
    using reduced_props(2)[OF assms] by (simp only: append_take_drop_id)
  then have d: "distinct (take k ?xs)" "distinct (drop k ?xs)"
      "set (take k ?xs) \<inter> set (drop k ?xs) = {}"
    unfolding distinct_append by blast+
  have s: "s \<notin> set ?xs" using reduced_props(3)[OF assms] by simp
  have s1: "s \<notin> set (take k ?xs)" using s in_set_takeD by fastforce
  have s2: "s \<notin> set (drop k ?xs)" using s in_set_dropD by fastforce
  show "distinct (take k ?xs @ s # drop k ?xs)"
    unfolding distinct_append distinct.simps using d s1 s2 by simp
  have "set (take k ?xs @ s # drop k ?xs) = insert s (set (take k ?xs) \<union> set (drop k ?xs))"
    by simp
  also have "set (take k ?xs) \<union> set (drop k ?xs) = set ?xs"
    by (metis append_take_drop_id set_append)
  also have "insert s (set ?xs) = {0..r - 1}"
    unfolding reduced_props(3)[OF assms] using assms by auto
  finally show "set (take k ?xs @ s # drop k ?xs) = {0..r - 1}" .
qed

lemma maybe_wrap_dim_Inr:
  "maybe_wrap_dim d r = Inr k \<Longrightarrow> 0 \<le> k \<and> k < r"
  by (auto simp: maybe_wrap_dim_def split: if_splits)

subsection \<open>Logical shape of a tagged array\<close>

lemma is_bdim_iff: "is_bdim bdims d \<longleftrightarrow> d \<in> set (map dim bdims)"
  by (auto simp: is_bdim_def list_ex_iff)

lemma logical_positions_set:
  "set (logical_positions n bdims) = {0..<int n} - set (map dim bdims)"
  by (auto simp: logical_positions_def is_bdim_iff image_int_atLeastLessThan simp flip: atLeast0LessThan)

lemma logical_positions_distinct: "distinct (logical_positions n bdims)"
  by (simp add: logical_positions_def distinct_map)

lemma length_filter_mem:
  assumes "distinct xs" "distinct ys" "set ys \<subseteq> set xs"
  shows "length (filter (\<lambda>x. x \<in> set ys) xs) = length ys"
proof -
  have "length (filter (\<lambda>x. x \<in> set ys) xs) = card {x \<in> set xs. x \<in> set ys}"
    using assms(1) by (simp add: distinct_length_filter Int_def conj_commute)
  also have "{x \<in> set xs. x \<in> set ys} = set ys" using assms(3) by auto
  also have "card (set ys) = length ys" using assms(2) by (rule distinct_card)
  finally show ?thesis .
qed

lemma logical_positions_length:
  assumes "wf_bdims n bdims"
  shows "length (logical_positions n bdims) + length bdims = n"
proof -
  let ?U = "map int [0..<n]"
  let ?bd = "map dim bdims"
  have sub: "set ?bd \<subseteq> set ?U"
  proof
    fix d assume "d \<in> set ?bd"
    then have "0 \<le> d \<and> d < int n" using assms by (auto simp: wf_bdims_def list_all_iff)
    then have "d = int (nat d)" "nat d < n" by auto
    then show "d \<in> set ?U" by (metis atLeast0LessThan imageI lessThan_iff set_map set_upt)
  qed
  have "length (filter (\<lambda>x. x \<in> set ?bd) ?U) = length ?bd"
    using assms sub by (intro length_filter_mem) (auto simp: wf_bdims_def distinct_map)
  moreover have "length (filter (\<lambda>x. x \<in> set ?bd) ?U) + length (filter (\<lambda>x. \<not> x \<in> set ?bd) ?U)
      = length ?U"
    by (rule sum_length_filter_compl)
  moreover have "logical_positions n bdims = filter (\<lambda>x. \<not> x \<in> set ?bd) ?U"
    by (simp add: logical_positions_def is_bdim_iff)
  ultimately show ?thesis by simp
qed

lemma tensor_dim_Batched:
  assumes "wf_bdims (length (sizes v)) bdims"
  shows "tensor_dim (Batched v bdims) = int (length (sizes v)) - int (length bdims)"
  using logical_positions_length[OF assms] by (simp add: tensor_dim_def)

subsection \<open>The permute primitive on shapes\<close>

lemma permute_impl_ok:
  assumes "length dims = length (sizes v)" "distinct dims" "set dims \<subseteq> {0..<int (length (sizes v))}"
  shows "permute_impl v dims = Inr (v\<lparr>sizes := map (\<lambda>d. sizes v ! nat d) dims,
                  strides := map (\<lambda>d. strides v ! nat d) dims\<rparr>)"
  using assms by (auto simp: permute_impl_def list_all_iff)

lemma to_front_ok:
  assumes "wf_bdims (length (sizes v)) bdims"
  shows "\<exists>p. permuteBatchDimsToFront v bdims = Inr p \<and>
     sizes p = map (\<lambda>d. sizes v ! nat d) (map dim bdims)
               @ map (\<lambda>d. sizes v ! nat d) (logical_positions (length (sizes v)) bdims)"
proof -
  let ?n = "length (sizes v)"
  let ?fp = "map dim bdims @ logical_positions ?n bdims"
  have 1: "length ?fp = ?n" using logical_positions_length[OF assms] by simp
  have 2: "distinct ?fp"
    using assms by (auto simp: wf_bdims_def logical_positions_distinct logical_positions_set)
  have 3: "set ?fp \<subseteq> {0..<int ?n}"
    using assms by (auto simp: wf_bdims_def logical_positions_set list_all_iff)
  show ?thesis
    unfolding permuteBatchDimsToFront_def permute_impl_ok[OF 1 2 3] by simp
qed

lemma front_bdims_simps:
  "map dim (front_bdims bdims) = map int [0..<length bdims]"
  "map level (front_bdims bdims) = map level bdims"
  "length (front_bdims bdims) = length bdims"
  by (auto simp: front_bdims_def intro!: nth_equalityI)

lemma wf_front_bdims:
  assumes "distinct (map level bdims)" "length bdims \<le> n"
  shows "wf_bdims n (front_bdims bdims)"
  using assms unfolding wf_bdims_def front_bdims_simps
  by (auto simp: distinct_map list_all_iff front_bdims_def set_zip)

lemma logical_positions_front:
  assumes "length bdims \<le> n"
  shows "logical_positions n (front_bdims bdims) = map int [length bdims..<n]"
proof -
  let ?k = "length bdims"
  have "[0..<n] = [0..<?k] @ [?k..<n]" using assms by (metis le_add_diff_inverse upt_add_eq_append zero_le)
  moreover have "filter (\<lambda>d. \<not> d \<in> set (map int [0..<?k])) (map int [0..<?k]) = []"
    by (simp add: filter_empty_conv)
  moreover have "filter (\<lambda>d. \<not> d \<in> set (map int [0..<?k])) (map int [?k..<n]) = map int [?k..<n]"
    by (rule filter_True) auto
  ultimately show ?thesis
    by (simp add: logical_positions_def is_bdim_iff front_bdims_simps del: set_map set_upt)
qed

lemma map_nth_upt_drop:
  assumes "length xs = n"
  shows "map (\<lambda>i. xs ! i) [k..<n] = drop k xs"
proof -
  have "drop k (map (\<lambda>i. xs ! i) [0..<n]) = map (\<lambda>i. xs ! i) (drop k [0..<n])"
    by (rule drop_map)
  moreover have "map (\<lambda>i. xs ! i) [0..<n] = xs" using assms map_nth by blast
  moreover have "drop k [0..<n] = [k..<n]" by simp
  ultimately show ?thesis by simp
qed

lemma permute_impl_sizes:
  assumes "length dims = length (sizes v)" "distinct dims" "set dims \<subseteq> {0..<int (length (sizes v))}"
  shows "\<exists>r. permute_impl v dims = Inr r \<and> sizes r = map (\<lambda>d. sizes v ! nat d) dims"
  using permute_impl_ok[OF assms] by simp

lemma permute_sizes_Batched:
  assumes wf: "wf_bdims (length (sizes v)) bdims"
    and len: "length perm = length (tensor_sizes (Batched v bdims))"
    and dist: "distinct perm"
    and rng: "set perm \<subseteq> {0..<int (length (tensor_sizes (Batched v bdims)))}"
  shows "\<exists>r. permute (Batched v bdims) perm = Inr (Batched r (front_bdims bdims))
           \<and> wf_bdims (length (sizes r)) (front_bdims bdims)
           \<and> tensor_sizes (Batched r (front_bdims bdims))
               = map (\<lambda>i. tensor_sizes (Batched v bdims) ! nat i) perm"
proof -
  define n where "n = length (sizes v)"
  define k where "k = length bdims"
  define ls where "ls = tensor_sizes (Batched v bdims)"
  have nk: "length ls + k = n"
    using logical_positions_length[OF wf] by (simp add: ls_def k_def n_def)
  from to_front_ok[OF wf] obtain p where p: "permuteBatchDimsToFront v bdims = Inr p"
    and sp: "sizes p = map (\<lambda>d. sizes v ! nat d) (map dim bdims) @ ls"
    by (auto simp: ls_def)
  have lp: "length (sizes p) = n" using sp nk by (simp add: k_def)
  define sprm where "sprm = map int [0..<k] @ map (\<lambda>d. d + int k) perm"
  have 1: "length sprm = length (sizes p)" using lp nk len by (simp add: sprm_def ls_def)
  have 2: "distinct sprm" using dist rng by (auto simp: sprm_def distinct_map inj_on_def)
  have 3: "set sprm \<subseteq> {0..<int (length (sizes p))}"
    using rng lp nk by (auto simp: sprm_def ls_def)
  from permute_impl_sizes[OF 1 2 3] obtain r where r: "permute_impl p sprm = Inr r"
    and sr: "sizes r = map (\<lambda>d. sizes p ! nat d) sprm" by blast
  have res: "permute (Batched v bdims) perm = Inr (Batched r (front_bdims bdims))"
    using p r by (simp add: sprm_def k_def)
  have kn: "k \<le> n" using nk by simp
  have lr: "length (sizes r) = n" using sr 1 lp by simp
  have wfB: "wf_bdims (length (sizes r)) (front_bdims bdims)"
    unfolding lr using wf kn by (intro wf_front_bdims) (auto simp: wf_bdims_def k_def)
  have "tensor_sizes (Batched r (front_bdims bdims)) = map (\<lambda>d. sizes r ! nat d) (map int [k..<n])"
    using logical_positions_front[of bdims n] kn lr by (simp add: k_def)
  also have "\<dots> = map (\<lambda>i. sizes r ! i) [k..<n]" by (simp add: comp_def)
  also have "\<dots> = drop k (sizes r)" using lr by (rule map_nth_upt_drop)
  also have "\<dots> = map (\<lambda>d. sizes p ! nat (d + int k)) perm"
    unfolding sr sprm_def by (simp add: comp_def)
  also have "\<dots> = map (\<lambda>i. ls ! nat i) perm"
  proof (rule map_cong[OF refl])
    fix d assume "d \<in> set perm"
    then have "0 \<le> d" using rng by auto
    then have "nat (d + int k) = k + nat d" by simp
    then show "sizes p ! nat (d + int k) = ls ! nat d"
      by (simp add: sp nth_append k_def)
  qed
  finally show ?thesis using res wfB by (simp add: ls_def)
qed

lemma permute_sizes:
  assumes inv: "tensor_invariant A"
    and len: "length perm = length (tensor_sizes A)"
    and dist: "distinct perm"
    and rng: "set perm \<subseteq> {0..<int (length (tensor_sizes A))}"
  shows "\<exists>B. permute A perm = Inr B \<and> tensor_invariant B
           \<and> tensor_sizes B = map (\<lambda>i. tensor_sizes A ! nat i) perm"
proof (cases A)
  case (Plain v)
  with len dist rng show ?thesis by (simp add: permute_impl_ok)
next
  case (Batched v bdims)
  from permute_sizes_Batched[of v bdims perm] inv len dist rng Batched
  obtain r where "permute A perm = Inr (Batched r (front_bdims bdims))"
    "wf_bdims (length (sizes r)) (front_bdims bdims)"
    "tensor_sizes (Batched r (front_bdims bdims)) = map (\<lambda>i. tensor_sizes A ! nat i) perm"
    by auto
  then show ?thesis by (intro exI[of _ "Batched r (front_bdims bdims)"]) simp
qed

lemma movedim_permute:
  assumes "maybe_wrap_dim src (tensor_dim A) = Inr s" "maybe_wrap_dim dst (tensor_dim A) = Inr d" "s \<noteq> d"
  shows "movedim A src dst = permute A (spec_movedim_permutation (tensor_dim A) s d)"
    and "vec_insert (movedim_loop 0 (tensor_dim A) s []) d s
          = Inr (spec_movedim_permutation (tensor_dim A) s d)"
proof -
  from assms(1,2) have b: "0 \<le> s" "s < tensor_dim A" "0 \<le> d" "d < tensor_dim A"
    by (auto dest: maybe_wrap_dim_Inr)
  show v: "vec_insert (movedim_loop 0 (tensor_dim A) s []) d s
          = Inr (spec_movedim_permutation (tensor_dim A) s d)"
    unfolding spec_movedim_permutation_def by (rule vec_insert_perm[OF b])
  show "movedim A src dst = permute A (spec_movedim_permutation (tensor_dim A) s d)"
    using assms v by (simp add: movedim_def)
qed

lemma spec_movedim_permutation_props:
  assumes "0 \<le> s" "s < r"
  shows "length (spec_movedim_permutation r s d) = nat r"
    "distinct (spec_movedim_permutation r s d)"
    "set (spec_movedim_permutation r s d) = {0..r - 1}"
  unfolding spec_movedim_permutation_def using inserted_props[OF assms] by auto

lemma movedim_sizes:
  assumes "tensor_invariant A"
    "maybe_wrap_dim src (tensor_dim A) = Inr s" "maybe_wrap_dim dst (tensor_dim A) = Inr d" "s \<noteq> d"
  shows "\<exists>B. movedim A src dst = Inr B \<and> tensor_invariant B \<and>
     tensor_sizes B = map (\<lambda>i. tensor_sizes A ! nat i) (spec_movedim_permutation (tensor_dim A) s d)"
proof -
  from assms(2) have b: "0 \<le> s" "s < tensor_dim A" by (auto dest: maybe_wrap_dim_Inr)
  note P = spec_movedim_permutation_props[OF b, of d]
  have 1: "length (spec_movedim_permutation (tensor_dim A) s d) = length (tensor_sizes A)"
    using P(1) by (simp add: tensor_dim_def)
  have 3: "set (spec_movedim_permutation (tensor_dim A) s d) \<subseteq> {0..<int (length (tensor_sizes A))}"
    unfolding P(3) by (auto simp: tensor_dim_def)
  from permute_sizes[OF assms(1) 1 P(2) 3] movedim_permute(1)[OF assms(2,3,4)]
  show ?thesis by simp
qed

lemma mset_map_nth_perm:
  assumes "distinct perm" "set perm = {0..int (length xs) - 1}"
  shows "mset (map (\<lambda>i. xs ! nat i) perm) = mset xs"
proof -
  have 1: "set perm = set (map int [0..<length xs])"
    unfolding assms(2) by (auto simp: image_int_atLeastLessThan simp flip: atLeast0LessThan)
  have 2: "distinct (map int [0..<length xs])" by (simp add: distinct_map)
  have "mset perm = mset (map int [0..<length xs])"
    using set_eq_iff_mset_eq_distinct[OF assms(1) 2] 1 by blast
  then have "image_mset (\<lambda>i. xs ! nat i) (mset perm)
      = image_mset (\<lambda>i. xs ! nat i) (mset (map int [0..<length xs]))" by simp
  also have "\<dots> = mset (map (\<lambda>i. xs ! i) [0..<length xs])"
    by (simp add: comp_def multiset.map_comp flip: mset_map)
  also have "\<dots> = mset xs" by (simp add: map_nth)
  finally show ?thesis by simp
qed

lemma upto_0_3: "[0..3::int] = [0, 1, 2, 3]"
  by (simp add: upto_rec1)

text \<open>
  Where \<open>movedim\<close> puts the dimension: the logical shape of the result is the shape without
  dimension \<open>s\<close>, with the size of dimension \<open>s\<close> inserted at position \<open>d\<close>.
\<close>

lemma upto_as_upt: "[int m..int n - 1] = map int [m..<n]"
proof (induction n)
  case 0
  then show ?case by simp
next
  case (Suc n)
  show ?case
  proof (cases "m \<le> n")
    case True
    then have "[int m..int (Suc n) - 1] = [int m..int n - 1] @ [int n]"
      using upto_rec2[of "int m" "int n"] by simp
    with Suc True show ?thesis by simp
  next
    case False
    then show ?thesis by simp
  qed
qed

lemma map_nth_upt_take:
  assumes "s \<le> length xs"
  shows "map (\<lambda>i. xs ! i) [0..<s] = take s xs"
proof -
  have "take s (map (\<lambda>i. xs ! i) [0..<length xs]) = map (\<lambda>i. xs ! i) (take s [0..<length xs])"
    by (rule take_map)
  moreover have "take s [0..<length xs] = [0..<s]" using assms by simp
  moreover have "map (\<lambda>i. xs ! i) [0..<length xs] = xs" by (rule map_nth)
  ultimately show ?thesis by simp
qed

lemma map_nth_reduced_dims:
  assumes "0 \<le> s" "s < int (length xs)"
  shows "map (\<lambda>i. xs ! nat i) (reduced_dims (int (length xs)) s)
           = take (nat s) xs @ drop (Suc (nat s)) xs"
proof -
  have a: "[0..s - 1] = map int [0..<nat s]"
    using upto_as_upt[of 0 "nat s"] assms(1) by simp
  have b: "[s + 1..int (length xs) - 1] = map int [Suc (nat s)..<length xs]"
    using upto_as_upt[of "Suc (nat s)" "length xs"] assms(1) by (simp add: add.commute)
  have "map (\<lambda>i. xs ! nat i) [0..s - 1] = map (\<lambda>i. xs ! i) [0..<nat s]"
    unfolding a by (simp add: comp_def)
  also have "\<dots> = take (nat s) xs" using assms by (intro map_nth_upt_take) simp
  finally have c: "map (\<lambda>i. xs ! nat i) [0..s - 1] = take (nat s) xs" .
  have "map (\<lambda>i. xs ! nat i) [s + 1..int (length xs) - 1] = map (\<lambda>i. xs ! i) [Suc (nat s)..<length xs]"
    unfolding b by (simp add: comp_def)
  also have "\<dots> = drop (Suc (nat s)) xs" by (rule map_nth_upt_drop) simp
  finally have d: "map (\<lambda>i. xs ! nat i) [s + 1..int (length xs) - 1] = drop (Suc (nat s)) xs" .
  show ?thesis
    unfolding reduced_dims_def filter_neq_upto[OF assms] using c d by simp
qed

lemma movedim_lands_at_dst:
  assumes inv: "tensor_invariant t"
    and s: "maybe_wrap_dim src (tensor_dim t) = Inr s"
    and d: "maybe_wrap_dim dst (tensor_dim t) = Inr d"
  shows "\<exists>B. movedim t src dst = Inr B \<and>
     tensor_sizes B =
       take (nat d) (take (nat s) (tensor_sizes t) @ drop (Suc (nat s)) (tensor_sizes t))
       @ tensor_sizes t ! nat s
       # drop (nat d) (take (nat s) (tensor_sizes t) @ drop (Suc (nat s)) (tensor_sizes t))"
proof -
  define xs where "xs = tensor_sizes t"
  define rest where "rest = take (nat s) xs @ drop (Suc (nat s)) xs"
  from s have sb: "0 \<le> s" "s < int (length xs)"
    by (auto dest: maybe_wrap_dim_Inr simp: tensor_dim_def xs_def)
  show ?thesis
  proof (cases "s = d")
    case True
    have m: "movedim t src dst = Inr t" using s d True by (simp add: movedim_def)
    have ls: "nat s < length xs" using sb by simp
    have "take (nat s) rest = take (nat s) xs" using ls by (simp add: rest_def)
    moreover have "drop (nat s) rest = drop (Suc (nat s)) xs" using ls by (simp add: rest_def)
    moreover have "xs = take (nat s) xs @ xs ! nat s # drop (Suc (nat s)) xs"
      using ls by (rule id_take_nth_drop)
    ultimately have "xs = take (nat s) rest @ xs ! nat s # drop (nat s) rest" by simp
    with m True show ?thesis by (simp add: xs_def rest_def)
  next
    case False
    from movedim_sizes[OF inv s d False] obtain B where B: "movedim t src dst = Inr B"
      "tensor_sizes B = map (\<lambda>i. xs ! nat i) (spec_movedim_permutation (tensor_dim t) s d)"
      by (auto simp: xs_def)
    have r: "map (\<lambda>i. xs ! nat i) (reduced_dims (tensor_dim t) s) = rest"
      unfolding rest_def tensor_dim_def xs_def[symmetric] by (rule map_nth_reduced_dims[OF sb])
    have "tensor_sizes B = take (nat d) rest @ xs ! nat s # drop (nat d) rest"
      unfolding B(2) spec_movedim_permutation_def
      by (simp add: take_map drop_map flip: r)
    with B(1) show ?thesis by (simp add: xs_def rest_def)
  qed
qed

subsection \<open>Counting tag entries around the exposed dimension\<close>

lemma filter_unique_key:
  assumes "distinct (map f xs)" "x \<in> set xs"
  shows "filter (\<lambda>y. f y = f x) xs = [x]"
  using assms
proof (induction xs)
  case Nil
  then show ?case by simp
next
  case (Cons a xs)
  show ?case
  proof (cases "a = x")
    case True
    have "f x \<notin> f ` set xs" using Cons.prems(1) True by simp
    then have "\<forall>y \<in> set xs. f y \<noteq> f x" by (metis imageI)
    then have "filter (\<lambda>y. f y = f x) xs = []"
      by (simp add: filter_empty_conv)
    with True show ?thesis by simp
  next
    case False
    with Cons.prems have "x \<in> set xs" "f a \<noteq> f x" by auto
    with Cons show ?thesis by simp
  qed
qed

lemma length_filter_lt:
  assumes "distinct (map dim bs)" "list_all (\<lambda>b. 0 \<le> dim b) bs"
  shows "int (length (filter (\<lambda>b. dim b < p) bs)) \<le> max 0 p"
proof -
  let ?ds = "filter (\<lambda>d. d < p) (map dim bs)"
  have "distinct ?ds" using assms(1) by simp
  then have "length ?ds = card (set ?ds)" by (rule distinct_card[symmetric])
  also have "set ?ds \<subseteq> {0..<p}" using assms(2) by (auto simp: list_all_iff)
  then have "card (set ?ds) \<le> card {0..<p}" by (intro card_mono) auto
  finally have "length ?ds \<le> nat p" by simp
  moreover have "length ?ds = length (filter (\<lambda>b. dim b < p) bs)"
    by (simp add: filter_map comp_def)
  ultimately show ?thesis by simp
qed

lemma length_filter_gt:
  assumes "distinct (map dim bs)" "list_all (\<lambda>b. dim b < int n) bs"
  shows "int (length (filter (\<lambda>b. p < dim b) bs)) \<le> max 0 (int n - 1 - p)"
proof -
  let ?ds = "filter (\<lambda>d. p < d) (map dim bs)"
  have "distinct ?ds" using assms(1) by simp
  then have "length ?ds = card (set ?ds)" by (rule distinct_card[symmetric])
  also have "set ?ds \<subseteq> {p + 1..<int n}" using assms(2) by (auto simp: list_all_iff)
  then have "card (set ?ds) \<le> card {p + 1..<int n}" by (intro card_mono) auto
  finally have "length ?ds \<le> nat (int n - (p + 1))" by simp
  moreover have "length ?ds = length (filter (\<lambda>b. p < dim b) bs)"
    by (simp add: filter_map comp_def)
  ultimately show ?thesis by simp
qed

lemma length_split3:
  assumes "\<forall>b \<in> set bs. dim b \<noteq> p"
  shows "length bs = length (filter (\<lambda>b. dim b < p) bs) + length (filter (\<lambda>b. p < dim b) bs)"
proof -
  have "filter (\<lambda>b. \<not> dim b < p) bs = filter (\<lambda>b. p < dim b) bs"
    using assms by (intro filter_cong) auto
  then show ?thesis using sum_length_filter_compl[of "\<lambda>b. dim b < p" bs] by simp
qed

lemma wf_bdims_filter: "wf_bdims n bdims \<Longrightarrow> wf_bdims n (filter P bdims)"
  by (auto simp: wf_bdims_def distinct_map_filter list_all_iff)

lemma has_level_remove_ok:
  assumes "has_level A lvl"
  shows "\<exists>t d. remove_existing_batch_dim A lvl = Inr (t, d)"
proof (cases A)
  case (Plain v)
  with assms show ?thesis by (simp add: has_level_Plain)
next
  case (Batched v bdims)
  with assms have ex: "list_ex (\<lambda>b. level b = lvl) bdims" by (simp add: has_level_Batched)
  show ?thesis
  proof (cases "length bdims = 1")
    case True
    then obtain b where "bdims = [b]" by (cases bdims) auto
    with ex Batched show ?thesis by (simp add: remove_existing_batch_dim_def)
  next
    case False
    from remove_loop_present[OF ex] obtain b :: BatchDim where
      "remove_loop lvl bdims ([], None) = (filter (\<lambda>b. level b \<noteq> lvl) bdims, Some (dim b))"
      by blast
    with False Batched show ?thesis by (simp add: remove_existing_batch_dim_def)
  qed
qed

lemma remover_result_in_range:
  assumes wf: "wf_bdims (length (sizes v)) bdims"
    and has: "has_level (Batched v bdims) lvl"
  shows "\<exists>t d. remove_existing_batch_dim (Batched v bdims) lvl = Inr (t, d)
      \<and> tensor_invariant t
      \<and> tensor_dim t = int (length (sizes v)) - (int (length bdims) - 1)
      \<and> 0 \<le> d \<and> d \<le> tensor_dim t - 1"
proof -
  define n where "n = length (sizes v)"
  from has have ex: "list_ex (\<lambda>b. level b = lvl) bdims" by (simp add: has_level_Batched)
  from remove_loop_present[OF ex] obtain b where b: "b \<in> set bdims" "level b = lvl"
    and loop: "remove_loop lvl bdims ([], None) = (filter (\<lambda>b. level b \<noteq> lvl) bdims, Some (dim b))"
    by blast
  from wf b(1) have pb: "0 \<le> dim b" "dim b < int n"
    by (auto simp: wf_bdims_def list_all_iff n_def)
  have "\<exists>t d. remove_existing_batch_dim (Batched v bdims) lvl = Inr (t, d)
      \<and> tensor_invariant t
      \<and> tensor_dim t = int n - (int (length bdims) - 1) \<and> 0 \<le> d \<and> d \<le> tensor_dim t - 1"
  proof (cases "length bdims = 1")
    case True
    with b(1) have "bdims = [b]" by (cases bdims) auto
    then show ?thesis using b(2) pb by (simp add: remove_existing_batch_dim_def tensor_dim_def n_def)
  next
    case False
    define new where "new = filter (\<lambda>b. level b \<noteq> lvl) bdims"
    define p where "p = dim b"
    define c where "c = int (length (filter (\<lambda>b. dim b < p) new))"
    define g where "g = int (length (filter (\<lambda>b. p < dim b) new))"
    have res: "remove_existing_batch_dim (Batched v bdims) lvl = Inr (Batched v new, p - c)"
      using False loop by (simp add: remove_existing_batch_dim_def makeBatched_def new_def p_def c_def)
    have wfn: "wf_bdims n new" unfolding new_def n_def using wf by (rule wf_bdims_filter)
    have "filter (\<lambda>y. level y = level b) bdims = [b]"
      using wf b(1) by (intro filter_unique_key) (auto simp: wf_bdims_def)
    then have "length (filter (\<lambda>y. level y = lvl) bdims) = 1" using b(2) by simp
    moreover have "length (filter (\<lambda>y. level y = lvl) bdims) + length new = length bdims"
      unfolding new_def by (rule sum_length_filter_compl)
    ultimately have ln: "int (length new) = int (length bdims) - 1" by simp
    have td: "tensor_dim (Batched v new) = int n - (int (length bdims) - 1)"
      using tensor_dim_Batched[of v new] wfn ln by (simp add: n_def)
    have nop: "\<forall>b' \<in> set new. dim b' \<noteq> p"
    proof
      fix b' assume "b' \<in> set new"
      then have "b' \<in> set bdims" "level b' \<noteq> level b" using b(2) by (auto simp: new_def)
      then have "b' \<noteq> b" by auto
      moreover have "inj_on dim (set bdims)" using wf by (auto simp: wf_bdims_def distinct_map)
      ultimately show "dim b' \<noteq> p" using \<open>b' \<in> set bdims\<close> b(1) by (auto simp: p_def inj_on_def)
    qed
    have dn: "distinct (map dim new)" "list_all (\<lambda>b. 0 \<le> dim b) new"
      "list_all (\<lambda>b. dim b < int n) new"
      using wfn by (auto simp: wf_bdims_def list_all_iff)
    have c: "c \<le> p" using length_filter_lt[OF dn(1,2), of p] pb by (simp add: c_def p_def)
    have g: "g \<le> int n - 1 - p" using length_filter_gt[OF dn(1,3), of p] pb by (simp add: g_def p_def)
    have "int (length new) = c + g" using length_split3[OF nop] by (simp add: c_def g_def)
    with ln have "int (length bdims) - 1 = c + g" by simp
    with c g td have "0 \<le> p - c" "p - c \<le> tensor_dim (Batched v new) - 1" by auto
    moreover have "tensor_invariant (Batched v new)" using wfn by (simp add: n_def)
    ultimately show ?thesis using res td by blast
  qed
  then show ?thesis unfolding n_def .
qed

subsection \<open>Dispatch of the entry point\<close>

text \<open>
  Claim C2 says that \<open>_remove_batch_dim\<close>, on an array without a tag entry for the level,
  returns the broadcast of the array with a new dimension of size \<open>batch_size\<close> at position
  \<open>out_dim\<close>, and otherwise the result of the Remover with the exposed dimension moved to
  \<open>out_dim\<close>. The code does not meet the first half: for a plain array of shape \<open>(3, 5)\<close>,
  \<open>batch_size = 7\<close> and \<open>out_dim = 1\<close>, a position that normalises against the rank 3
  of the result, lines 102-104 insert 7 at position 1 and line 105 hands the shape
  \<open>(3, 7, 5)\<close> to the broadcast primitive, which refuses it; no array is returned. The
  theorem evaluates \<open>_remove_batch_dim\<close> at this input.
\<close>

theorem remove_batch_dim_no_level_refused:
  "\<not> has_level (Plain \<lparr>sizes = [3, 5], strides = [5, 1], storage_offset = 0, storage = [0::nat]\<rparr>) 0
   \<and> maybe_wrap_dim 1 3 = Inr 1
   \<and> vec_insert [3, 5] 1 7 = Inr [3, 7, 5 :: int]
   \<and> remove_batch_dim (Plain \<lparr>sizes = [3, 5], strides = [5, 1], storage_offset = 0, storage = [0::nat]\<rparr>) 0 7 1
       = expand (Plain \<lparr>sizes = [3, 5], strides = [5, 1], storage_offset = 0, storage = [0::nat]\<rparr>) [3, 7, 5]
   \<and> (\<nexists>B. remove_batch_dim
             (Plain \<lparr>sizes = [3, 5], strides = [5, 1], storage_offset = 0, storage = [0::nat]\<rparr>) 0 7 1
           = Inr B)"
  by (simp add: remove_batch_dim_def has_level_Plain vec_insert_def expand_impl_def maybe_wrap_dim_def)

text \<open>
  The second half holds. For a tagged array satisfying the data-model invariants that has
  an entry for the level, the Remover returns a pair \<open>(t, d)\<close>, and for every \<open>out_dim\<close> that
  normalises against the rank of \<open>t\<close> to \<open>k\<close> the entry point returns an array whose logical
  shape is the shape of \<open>t\<close> without dimension \<open>d\<close>, with the size of dimension \<open>d\<close> inserted
  at position \<open>k\<close>.
\<close>

lemma remove_batch_dim_lands_at_out_dim:
  assumes wf: "wf_bdims (length (sizes v)) bdims"
    and has: "has_level (Batched v bdims) lvl"
  shows "\<exists>t d. remove_existing_batch_dim (Batched v bdims) lvl = Inr (t, d) \<and>
     (\<forall>k. maybe_wrap_dim out_dim (tensor_dim t) = Inr k \<longrightarrow>
        (\<exists>B. remove_batch_dim (Batched v bdims) lvl batch_size out_dim = Inr B \<and>
           tensor_sizes B =
             take (nat k) (take (nat d) (tensor_sizes t) @ drop (Suc (nat d)) (tensor_sizes t))
             @ tensor_sizes t ! nat d
             # drop (nat k) (take (nat d) (tensor_sizes t) @ drop (Suc (nat d)) (tensor_sizes t))))"
proof -
  from remover_result_in_range[OF wf has]
  obtain t d where r: "remove_existing_batch_dim (Batched v bdims) lvl = Inr (t, d)"
    "tensor_invariant t" "0 \<le> d" "d \<le> tensor_dim t - 1" by blast
  then have w: "maybe_wrap_dim d (tensor_dim t) = Inr d" by (simp add: maybe_wrap_dim_def)
  have rb: "remove_batch_dim (Batched v bdims) lvl batch_size out_dim = movedim t d out_dim"
    using has r(1) by (simp add: remove_batch_dim_def)
  show ?thesis
    using r(1) rb movedim_lands_at_dst[OF r(2) w] by auto
qed

subsection \<open>Order preservation of movedim\<close>

text \<open>
  Claim C4. For an array of logical shape \<open>(a, b, c, e)\<close>, \<open>movedim A 0 2\<close> has shape
  \<open>(b, c, a, e)\<close> and \<open>movedim A 3 0\<close> has shape \<open>(e, a, b, c)\<close>. In general, for \<open>src\<close> and
  \<open>dst\<close> that normalise to different indices \<open>s\<close> and \<open>d\<close>, \<open>movedim\<close> applies the
  specification's permutation: all dimensions except \<open>s\<close> in their original order, with
  \<open>s\<close> inserted at position \<open>d\<close> of that reduced sequence; dimension \<open>i\<close> of the result is
  dimension \<open>perm ! i\<close> of the input. A tagged array is assumed to satisfy the data-model
  invariants.
\<close>

theorem movedim_order_preservation:
  assumes "tensor_invariant A"
  shows "(tensor_sizes A = [a, b, c, e] \<longrightarrow>
            (\<exists>B. movedim A 0 2 = Inr B \<and> tensor_sizes B = [b, c, a, e])
          \<and> (\<exists>B. movedim A 3 0 = Inr B \<and> tensor_sizes B = [e, a, b, c]))
       \<and> (maybe_wrap_dim src (tensor_dim A) = Inr s \<and> maybe_wrap_dim dst (tensor_dim A) = Inr d
            \<and> s \<noteq> d \<longrightarrow>
            movedim A src dst = permute A (spec_movedim_permutation (tensor_dim A) s d)
          \<and> (\<exists>B. movedim A src dst = Inr B \<and>
                tensor_sizes B = map (\<lambda>i. tensor_sizes A ! nat i)
                                   (spec_movedim_permutation (tensor_dim A) s d)))"
proof (intro conjI impI)
  assume sz: "tensor_sizes A = [a, b, c, e]"
  then have r: "tensor_dim A = 4" by (simp add: tensor_dim_def)
  have u: "[0..3::int] = [0, 1, 2, 3]" by (simp add: upto_rec1)
  have p1: "spec_movedim_permutation 4 0 2 = [1, 2, 0, 3]"
    by (simp add: spec_movedim_permutation_def reduced_dims_def u)
  have p2: "spec_movedim_permutation 4 3 0 = [3, 0, 1, 2]"
    by (simp add: spec_movedim_permutation_def reduced_dims_def u)
  have w: "maybe_wrap_dim 0 4 = Inr 0" "maybe_wrap_dim 2 4 = Inr 2" "maybe_wrap_dim 3 4 = Inr 3"
    by (simp_all add: maybe_wrap_dim_def)
  from movedim_sizes[OF assms, of 0 0 2 2] show "\<exists>B. movedim A 0 2 = Inr B \<and> tensor_sizes B = [b, c, a, e]"
    unfolding r p1 using w sz by auto
  from movedim_sizes[OF assms, of 3 3 0 0] show "\<exists>B. movedim A 3 0 = Inr B \<and> tensor_sizes B = [e, a, b, c]"
    unfolding r p2 using w sz by auto
next
  assume h: "maybe_wrap_dim src (tensor_dim A) = Inr s \<and> maybe_wrap_dim dst (tensor_dim A) = Inr d \<and> s \<noteq> d"
  then show "movedim A src dst = permute A (spec_movedim_permutation (tensor_dim A) s d)"
    by (intro movedim_permute(1)) auto
  from h movedim_sizes[OF assms, of src s dst d]
  show "\<exists>B. movedim A src dst = Inr B \<and>
                tensor_sizes B = map (\<lambda>i. tensor_sizes A ! nat i)
                                   (spec_movedim_permutation (tensor_dim A) s d)"
    by auto
qed

theorem movedim_order_preservation_witness:
  "tensor_invariant (Plain \<lparr>sizes = [2, 3, 4, 5], strides = [60, 20, 5, 1], storage_offset = 0, storage = [0::nat]\<rparr>)
   \<and> tensor_sizes (Plain \<lparr>sizes = [2, 3, 4, 5], strides = [60, 20, 5, 1], storage_offset = 0, storage = [0::nat]\<rparr>)
       = [2, 3, 4, 5]
   \<and> (\<exists>B. movedim (Plain \<lparr>sizes = [2, 3, 4, 5], strides = [60, 20, 5, 1], storage_offset = 0, storage = [0::nat]\<rparr>) 0 2
          = Inr B \<and> tensor_sizes B = [3, 4, 2, 5])
   \<and> (\<exists>B. movedim (Plain \<lparr>sizes = [2, 3, 4, 5], strides = [60, 20, 5, 1], storage_offset = 0, storage = [0::nat]\<rparr>) 3 0
          = Inr B \<and> tensor_sizes B = [5, 2, 3, 4])
   \<and> maybe_wrap_dim (- 1) 4 = Inr 3 \<and> maybe_wrap_dim 1 4 = Inr 1 \<and> (3::int) \<noteq> 1
   \<and> (\<exists>B. movedim (Plain \<lparr>sizes = [2, 3, 4, 5], strides = [60, 20, 5, 1], storage_offset = 0, storage = [0::nat]\<rparr>) (- 1) 1
          = Inr B \<and> tensor_sizes B = [2, 5, 3, 4])"
  using movedim_order_preservation [of "Plain \<lparr>sizes = [2, 3, 4, 5], strides = [60, 20, 5, 1], storage_offset = 0, storage = [0::nat]\<rparr>"
      2 3 4 5 "- 1" 3 1 1]
  by (auto simp: tensor_dim_def maybe_wrap_dim_def spec_movedim_permutation_def reduced_dims_def
      upto_0_3 permute_impl_def)

subsection \<open>Synthesis\<close>

text \<open>
  Claim C5 says that synthesizing a batch dimension of size 7 at position 1 of a plain
  array of shape \<open>(3, 5)\<close> yields shape \<open>(3, 7, 5)\<close>. The code does not: lines 102-105
  build the shape \<open>(3, 7, 5)\<close> and hand it to the broadcast primitive, which aligns the
  array's \<open>(3, 5)\<close> with the trailing \<open>(7, 5)\<close> of the target and refuses the size 3
  against 7. The theorem evaluates \<open>_remove_batch_dim\<close> at this input.
\<close>

theorem remove_batch_dim_synthesis_refused: "remove_batch_dim
     (Plain \<lparr>sizes = [3, 5], strides = [5, 1], storage_offset = 0, storage = [0::nat]\<rparr>) 0 7 1
   = Inl ShapeMismatch"
  by (simp add: remove_batch_dim_def has_level_def vec_insert_def expand_impl_def)

text \<open>
  What the synthesis path does achieve: with \<open>out_dim = 0\<close> the new dimension is in front,
  and every slice along it is the original array. And since the broadcast primitive is
  given the target shape only, a shape in which \<open>batch_size\<close> coincides with the size it
  displaces is broadcast with the new dimension in front as well: the slices along
  \<open>out_dim = 1\<close> are then not the original array.
\<close>

lemma synthesis_at_front:
  assumes "length (strides v) = length (sizes v)"
  shows "\<exists>r. remove_batch_dim (Plain v) lvl batch_size 0 = Inr (Plain r)
            \<and> sizes r = batch_size # sizes v \<and> select_impl r 0 i = v"
proof -
  have a: "list_all (\<lambda>(s, g). g = s \<or> s = 1) (zip (sizes v) (sizes v))"
    by (auto simp: list_all_iff set_zip)
  have "map (\<lambda>((s, g), st). if g = s then st else 0) (zip (zip (sizes v) (sizes v)) (strides v))
      = map snd (zip (zip (sizes v) (sizes v)) (strides v))"
    by (rule map_cong) (auto simp: set_zip)
  also have "\<dots> = strides v" using assms by simp
  finally have b: "map (\<lambda>((s, g), st). if g = s then st else 0) (zip (zip (sizes v) (sizes v)) (strides v))
      = strides v" .
  show ?thesis
    using a b by (simp add: remove_batch_dim_def has_level_Plain vec_insert_def expand_impl_def
        select_impl_def)
qed

lemma synthesis_behind_front_not_a_slice:
  "\<exists>r. remove_batch_dim
          (Plain \<lparr>sizes = [3, 5], strides = [5, 1], storage_offset = 0, storage = [0::nat]\<rparr>) 0 3 1
        = Inr (Plain r)
      \<and> sizes r = [3, 3, 5]
      \<and> select_impl r 0 0 = \<lparr>sizes = [3, 5], strides = [5, 1], storage_offset = 0, storage = [0::nat]\<rparr>
      \<and> select_impl r 1 0 \<noteq> \<lparr>sizes = [3, 5], strides = [5, 1], storage_offset = 0, storage = [0::nat]\<rparr>"
  by (simp add: remove_batch_dim_def has_level_Plain vec_insert_def expand_impl_def select_impl_def)

text \<open>
  The last observation does not depend on how the broadcast primitive is modelled. For a
  \<open>(3, 5)\<close> array and \<open>batch_size = 3\<close>, lines 102-104 build the same target shape for
  \<open>out_dim = 0\<close> and for \<open>out_dim = 1\<close>, so line 105 makes the same call; and no strided
  array at all has both every slice along dimension 0 and every slice along dimension 1
  equal to the contiguous \<open>(3, 5)\<close> array.
\<close>

lemma synthesis_call_ignores_out_dim:
  "vec_insert [3, 5] 0 3 = vec_insert [3, 5 :: int] 1 3"
  by (simp add: vec_insert_def)

lemma no_array_has_both_slice_laws:
  fixes r :: "nat TensorImpl"
  assumes "select_impl r 0 0 =
      \<lparr>sizes = [3, 5], strides = [5, 1], storage_offset = 0, storage = [0::nat]\<rparr>"
    and "select_impl r 0 1 =
      \<lparr>sizes = [3, 5], strides = [5, 1], storage_offset = 0, storage = [0::nat]\<rparr>"
    and "select_impl r 1 0 =
      \<lparr>sizes = [3, 5], strides = [5, 1], storage_offset = 0, storage = [0::nat]\<rparr>"
  shows False
proof -
  from assms(1) have "storage_offset (select_impl r 0 0) = 0" by simp
  then have o: "storage_offset r = 0" by (simp add: select_impl_def)
  from assms(2) have "storage_offset (select_impl r 0 1) = 0" by simp
  with o have s0: "strides r ! 0 = 0" by (simp add: select_impl_def)
  from assms(3) have "strides (select_impl r 1 0) = [5, 1]" by simp
  then have t: "take 1 (strides r) @ drop 2 (strides r) = [5, 1]"
    by (simp add: select_impl_def numeral_2_eq_2)
  then have "strides r \<noteq> []" by auto
  then obtain x xs where "strides r = x # xs" by (cases "strides r") auto
  with t s0 show False by simp
qed

subsection \<open>Identity of movedim\<close>

text \<open>
  Claim C6. Whenever \<open>src\<close> and \<open>dst\<close> normalise against the logical rank of \<open>A\<close> to the
  same index \<open>k\<close> (in particular \<open>movedim A k k\<close>, and a negative index with its
  non-negative counterpart), \<open>movedim\<close> returns \<open>A\<close> itself.
\<close>

theorem movedim_identity: "maybe_wrap_dim src (tensor_dim A) = Inr k \<Longrightarrow> maybe_wrap_dim dst (tensor_dim A) = Inr k
   \<Longrightarrow> movedim A src dst = Inr A"
  by (simp add: movedim_def)

theorem movedim_identity_witness:
  "maybe_wrap_dim (- 1) (tensor_dim (Plain \<lparr>sizes = [2, 3, 4, 5], strides = [60, 20, 5, 1], storage_offset = 0, storage = [0::nat]\<rparr>)) = Inr 3
   \<and> maybe_wrap_dim 3 (tensor_dim (Plain \<lparr>sizes = [2, 3, 4, 5], strides = [60, 20, 5, 1], storage_offset = 0, storage = [0::nat]\<rparr>)) = Inr 3
   \<and> movedim (Plain \<lparr>sizes = [2, 3, 4, 5], strides = [60, 20, 5, 1], storage_offset = 0, storage = [0::nat]\<rparr>) (- 1) 3
      = Inr (Plain \<lparr>sizes = [2, 3, 4, 5], strides = [60, 20, 5, 1], storage_offset = 0, storage = [0::nat]\<rparr>)"
  using movedim_identity [of "- 1" "Plain \<lparr>sizes = [2, 3, 4, 5], strides = [60, 20, 5, 1], storage_offset = 0, storage = [0::nat]\<rparr>" 3 3]
  by (simp add: tensor_dim_def maybe_wrap_dim_def)

subsection \<open>Violated precondition of the Remover\<close>




text \<open>The general form of the unchecked path.\<close>

lemma remove_existing_batch_dim_unchecked:
  assumes "2 \<le> length bdims" "\<not> has_level (Batched v bdims) lvl"
  shows "remove_existing_batch_dim (Batched v bdims) lvl = Inl UndefinedBehavior"
proof -
  from assms(2) have "\<not> list_ex (\<lambda>b. level b = lvl) bdims" by (simp add: has_level_Batched)
  from remove_loop_snd_absent[OF this, of "[]" None]
  have "snd (remove_loop lvl bdims ([], None)) = None" .
  then obtain new where "remove_loop lvl bdims ([], None) = (new, None)"
    by (metis prod.collapse)
  with assms(1) show ?thesis by (simp add: remove_existing_batch_dim_def)
qed

subsection \<open>Range of the exposed logical dimension\<close>

text \<open>
  Claim C9. For a tagged array satisfying the data-model invariants that has an entry for
  level \<open>lvl\<close>, \<open>remove_existing_batch_dim\<close> returns an array \<open>t\<close> of logical rank
  \<open>physicalRank - (k - 1)\<close>, where \<open>k\<close> is the number of tag entries, and a logical dimension
  \<open>d\<close> with \<open>0 \<le> d \<le> rank t - 1\<close>; so the normalisation of \<open>d\<close> against the rank of \<open>t\<close>,
  the first step of the following \<open>movedim\<close>, succeeds and leaves \<open>d\<close> as it is.
\<close>

theorem exposed_logical_dim_in_range:
  assumes wf: "wf_bdims (length (sizes v)) bdims"
    and has: "has_level (Batched v bdims) lvl"
  shows "\<exists>t d. remove_existing_batch_dim (Batched v bdims) lvl = Inr (t, d)
      \<and> tensor_dim t = int (length (sizes v)) - (int (length bdims) - 1)
      \<and> 0 \<le> d \<and> d \<le> tensor_dim t - 1
      \<and> maybe_wrap_dim d (tensor_dim t) = Inr d"
proof -
  from remover_result_in_range[OF wf has]
  obtain t d where r: "remove_existing_batch_dim (Batched v bdims) lvl = Inr (t, d)"
    "tensor_dim t = int (length (sizes v)) - (int (length bdims) - 1)"
    "0 \<le> d" "d \<le> tensor_dim t - 1" by blast
  then have "maybe_wrap_dim d (tensor_dim t) = Inr d" by (simp add: maybe_wrap_dim_def)
  with r show ?thesis by blast
qed

theorem exposed_logical_dim_in_range_witness:
  "wf_bdims (length (sizes \<lparr>sizes = [2, 3, 5, 7], strides = [105, 35, 7, 1], storage_offset = 0, storage = [0::nat]\<rparr>))
      [\<lparr>level = 0, dim = 1\<rparr>, \<lparr>level = 1, dim = 3\<rparr>]
   \<and> has_level (Batched \<lparr>sizes = [2, 3, 5, 7], strides = [105, 35, 7, 1], storage_offset = 0, storage = [0::nat]\<rparr>
                   [\<lparr>level = 0, dim = 1\<rparr>, \<lparr>level = 1, dim = 3\<rparr>]) 1
   \<and> (\<exists>t d. remove_existing_batch_dim
               (Batched \<lparr>sizes = [2, 3, 5, 7], strides = [105, 35, 7, 1], storage_offset = 0, storage = [0::nat]\<rparr>
                   [\<lparr>level = 0, dim = 1\<rparr>, \<lparr>level = 1, dim = 3\<rparr>]) 1 = Inr (t, d)
         \<and> tensor_dim t = 3 \<and> 0 \<le> d \<and> d \<le> 2 \<and> maybe_wrap_dim d 3 = Inr d)"
  using exposed_logical_dim_in_range [of "\<lparr>sizes = [2, 3, 5, 7], strides = [105, 35, 7, 1], storage_offset = 0, storage = [0::nat]\<rparr>"
      "[\<lparr>level = 0, dim = 1\<rparr>, \<lparr>level = 1, dim = 3\<rparr>]" 1]
  by (auto simp: wf_bdims_def has_level_Batched)

subsection \<open>Validity of the permutation\<close>

text \<open>
  Claim C10. For an array of logical rank \<open>r\<close> (a tagged one satisfying the data-model
  invariants) and \<open>src\<close>, \<open>dst\<close> that normalise to different indices, the index sequence
  that the loop and the insertion of \<open>movedim\<close> build and pass to the permute primitive has
  length \<open>r\<close>, no repetition, and exactly the elements \<open>0, ..., r - 1\<close>; the primitive
  accepts it, and the result has the rank and the multiset of dimension sizes of the
  input.
\<close>

theorem movedim_permutation_valid:
  assumes "tensor_invariant A"
    and "maybe_wrap_dim src (tensor_dim A) = Inr s"
    and "maybe_wrap_dim dst (tensor_dim A) = Inr d"
    and "s \<noteq> d"
  shows "\<exists>perm B. vec_insert (movedim_loop 0 (tensor_dim A) s []) d s = Inr perm
      \<and> length perm = nat (tensor_dim A) \<and> distinct perm \<and> set perm = {0..tensor_dim A - 1}
      \<and> movedim A src dst = permute A perm
      \<and> permute A perm = Inr B
      \<and> tensor_dim B = tensor_dim A
      \<and> mset (tensor_sizes B) = mset (tensor_sizes A)"
proof -
  let ?perm = "spec_movedim_permutation (tensor_dim A) s d"
  from assms(2) have b: "0 \<le> s" "s < tensor_dim A" by (auto dest: maybe_wrap_dim_Inr)
  note P = spec_movedim_permutation_props[OF b, of d]
  note M = movedim_permute[OF assms(2,3,4)]
  from movedim_sizes[OF assms] obtain B where B: "movedim A src dst = Inr B"
    "tensor_sizes B = map (\<lambda>i. tensor_sizes A ! nat i) ?perm" by blast
  have "mset (tensor_sizes B) = mset (tensor_sizes A)"
    unfolding B(2) using P(2,3) by (intro mset_map_nth_perm) (auto simp: tensor_dim_def)
  moreover have "tensor_dim B = tensor_dim A"
    using B(2) P(1) by (simp add: tensor_dim_def)
  moreover have "permute A ?perm = Inr B" using B(1) M(1) by simp
  ultimately show ?thesis using M P by blast
qed

theorem movedim_permutation_valid_witness:
  "tensor_invariant (Batched \<lparr>sizes = [2, 3, 5, 7], strides = [105, 35, 7, 1], storage_offset = 0, storage = [0::nat]\<rparr>
                   [\<lparr>level = 0, dim = 1\<rparr>])
   \<and> maybe_wrap_dim 0 3 = Inr 0 \<and> maybe_wrap_dim (- 1) 3 = Inr 2 \<and> (0::int) \<noteq> 2
   \<and> (\<exists>perm B. vec_insert (movedim_loop 0 3 0 []) 2 0 = Inr perm
        \<and> length perm = 3 \<and> distinct perm \<and> set perm = {0..2}
        \<and> movedim (Batched \<lparr>sizes = [2, 3, 5, 7], strides = [105, 35, 7, 1], storage_offset = 0, storage = [0::nat]\<rparr>
                   [\<lparr>level = 0, dim = 1\<rparr>]) 0 (- 1)
           = permute (Batched \<lparr>sizes = [2, 3, 5, 7], strides = [105, 35, 7, 1], storage_offset = 0, storage = [0::nat]\<rparr>
                   [\<lparr>level = 0, dim = 1\<rparr>]) perm
        \<and> permute (Batched \<lparr>sizes = [2, 3, 5, 7], strides = [105, 35, 7, 1], storage_offset = 0, storage = [0::nat]\<rparr>
                   [\<lparr>level = 0, dim = 1\<rparr>]) perm = Inr B
        \<and> tensor_dim B = 3
        \<and> mset (tensor_sizes B) = {#2, 5, 7#})"
proof -
  have td: "tensor_dim (Batched \<lparr>sizes = [2, 3, 5, 7], strides = [105, 35, 7, 1], storage_offset = 0, storage = [0::nat]\<rparr>
                   [\<lparr>level = 0, dim = 1\<rparr>]) = 3"
    by (simp add: tensor_dim_Batched wf_bdims_def)
  have ts: "tensor_sizes (Batched \<lparr>sizes = [2, 3, 5, 7], strides = [105, 35, 7, 1], storage_offset = 0, storage = [0::nat]\<rparr>
                   [\<lparr>level = 0, dim = 1\<rparr>]) = [2, 5, 7]"
    by (simp add: logical_positions_def is_bdim_def upt_rec)
  show ?thesis
    using movedim_permutation_valid [of "Batched \<lparr>sizes = [2, 3, 5, 7], strides = [105, 35, 7, 1], storage_offset = 0, storage = [0::nat]\<rparr>
                   [\<lparr>level = 0, dim = 1\<rparr>]" 0 0 "- 1" 2]
    unfolding td ts by (simp add: wf_bdims_def maybe_wrap_dim_def)
qed

end
